theory Spec2Isabelle
  imports Main "HOL-Library.Stream" "HOL-Library.Multiset"
begin

section \<open>Hands and other values\<close>

text \<open>
  A hand is the object \<open>rollCeeLo\<close> builds: always \<open>dice\<close> and \<open>label\<close>, a \<open>type\<close> tag that
  is one of the strings \<open>"456"\<close>, \<open>"123"\<close>, \<open>"triple"\<close>, \<open>"point"\<close>, and the field \<open>triple\<close>
  or \<open>point\<close> exactly when the tag says so. The tag is the constructor; \<open>type\<close> reads it
  back as the string the source compares against. Numbers are JavaScript numbers holding
  small integers, modelled as \<open>int\<close>.
\<close>

datatype hand =
    Hand456 (dice: "int list") (label: string)
  | Hand123 (dice: "int list") (label: string)
  | HandTriple (dice: "int list") (label: string) (triple: int)
  | HandPoint (dice: "int list") (label: string) (point: int)

fun type :: "hand \<Rightarrow> string" where
  "type (Hand456 d l) = ''456''"
| "type (Hand123 d l) = ''123''"
| "type (HandTriple d l v) = ''triple''"
| "type (HandPoint d l v) = ''point''"

text \<open>
  The values a lookup in the results object can give: nothing (\<open>undefined\<close>), \<open>null\<close>, a
  hand, the value of a field of a hand (an array, a string, a number), the object
  \<open>Object.prototype\<close>, or the function \<open>Object.prototype\<close> holds under a name. Values of
  a state file that are none of these are outside the model.
\<close>

datatype jsvalue =
    Undefined
  | Null
  | Hand hand
  | Arr "int list"
  | Str string
  | Num int
  | ObjectPrototype
  | Member string

text \<open>What \<open>!v\<close>, \<open>!!v\<close>, \<open>v || w\<close> and \<open>if (v)\<close> test.\<close>

fun truthy :: "jsvalue \<Rightarrow> bool" where
  "truthy Undefined = False"
| "truthy Null = False"
| "truthy (Hand h) = True"
| "truthy (Arr xs) = True"
| "truthy (Str s) = (s \<noteq> [])"
| "truthy (Num i) = (i \<noteq> 0)"
| "truthy ObjectPrototype = True"
| "truthy (Member n) = True"

text \<open>\<open>v || null\<close>.\<close>

definition orNull :: "jsvalue \<Rightarrow> jsvalue" where
  "orNull v = (if truthy v then v else Null)"

text \<open>The decimal text of an integer, as a template literal \<open>`${n}`\<close> prints it.\<close>

function showNat :: "nat \<Rightarrow> string" where
  "showNat n =
     (if n < 10 then [''0123456789'' ! n]
      else showNat (n div 10) @ [''0123456789'' ! (n mod 10)])"
  by pat_completeness auto
termination
  by (relation "measure id") auto

declare showNat.simps [simp del]

definition toString :: "int \<Rightarrow> string" where
  "toString i = (if i < 0 then CHR ''-'' # showNat (nat (- i)) else showNat (nat i))"

section \<open>Cee-Lo logic\<close>

text \<open>
  The entropy source is the stream of the values \<open>Math.floor(Math.random()*6)\<close>, each in
  \<open>0..5\<close>; \<open>d6\<close> takes the next one and returns the rest of the stream.
\<close>

type_synonym rng = "nat stream"

definition d6 :: "rng \<Rightarrow> int \<times> rng" where
  "d6 s = (1 + int (shd s), stl s)"

text \<open>The three calls \<open>[d6(),d6(),d6()]\<close> of one iteration, in order.\<close>

definition draw3 :: "rng \<Rightarrow> (int \<times> int \<times> int) \<times> rng" where
  "draw3 s = (let (x, s1) = d6 s; (y, s2) = d6 s1; (z, s3) = d6 s2 in ((x, y, z), s3))"

text \<open>
  The rest of one iteration of \<open>rollCeeLo\<close>'s loop, for the three dice drawn: sort
  ascending, then the six tests in the source's order. \<open>None\<close> is the case where no test
  returns and the loop goes round again.
\<close>

definition rollCeeLo_classify :: "int \<Rightarrow> int \<Rightarrow> int \<Rightarrow> hand option" where
  "rollCeeLo_classify x y z =
    (let d = sort [x, y, z]; a = d ! 0; b = d ! 1; c = d ! 2 in
     if a = 4 \<and> b = 5 \<and> c = 6 then Some (Hand456 d ''4-5-6 (auto win)'')
     else if a = 1 \<and> b = 2 \<and> c = 3 then Some (Hand123 d ''1-2-3 (auto loss)'')
     else if a = b \<and> b = c then Some (HandTriple d (''Triple '' @ toString a) a)
     else if a = b \<and> b \<noteq> c then Some (HandPoint d (''Point '' @ toString c) c)
     else if b = c \<and> a \<noteq> b then Some (HandPoint d (''Point '' @ toString a) a)
     else if a = c \<and> b \<noteq> a then Some (HandPoint d (''Point '' @ toString b) b)
     else None)"

text \<open>
  \<open>while(true)\<close>: the loop has no bound of its own, so the function is partial and
  \<open>None\<close> stands for a call that never returns.
\<close>

partial_function (option) rollCeeLo :: "rng \<Rightarrow> (hand \<times> rng) option" where
  "rollCeeLo s =
    (case draw3 s of ((x, y, z), s') \<Rightarrow>
      (case rollCeeLo_classify x y z of
         Some h \<Rightarrow> Some (h, s')
       | None \<Rightarrow> rollCeeLo s'))"

text \<open>
  The result of call number \<open>i\<close> (from 0) when \<open>rollCeeLo\<close> is called again and again on
  a stream of draws, each call going on where the one before stopped; \<open>None\<close> when that
  call, or one before it, does not return.
\<close>

fun nth_call :: "nat \<Rightarrow> rng \<Rightarrow> (hand \<times> rng) option" where
  "nth_call 0 s = rollCeeLo s"
| "nth_call (Suc i) s = (case rollCeeLo s of None \<Rightarrow> None | Some (h, s') \<Rightarrow> nth_call i s')"

text \<open>
  \<open>rankScore(h)\<close>. A value that is not a hand has no \<open>type\<close>: when it is truthy, every
  comparison of \<open>h.type\<close> fails and the last \<open>return -1\<close> is reached.
\<close>

definition rankScore :: "jsvalue \<Rightarrow> int" where
  "rankScore v =
     (if \<not> truthy v then - 1
      else (case v of
              Hand h \<Rightarrow>
                (if type h = ''456'' then 400
                 else if type h = ''triple'' then 300 + triple h
                 else if type h = ''point'' then 100 + point h
                 else if type h = ''123'' then 0
                 else - 1)
            | _ \<Rightarrow> - 1))"

section \<open>Unique-outcome enforcement\<close>

text \<open>
  \<open>outcomeKey(h)\<close>. The key is a string, or \<open>undefined\<close> (here \<open>None\<close>): a truthy value that
  is not a hand has no \<open>type\<close> and no \<open>label\<close>, so \<open>return h.label\<close> gives \<open>undefined\<close>.
\<close>

type_synonym key = "string option"

definition outcomeKey :: "jsvalue \<Rightarrow> key" where
  "outcomeKey v =
     (if \<not> truthy v then Some ''''
      else (case v of
              Hand h \<Rightarrow>
                (if type h = ''456'' \<or> type h = ''123'' then Some (type h)
                 else if type h = ''triple'' then Some (''triple:'' @ toString (triple h))
                 else if type h = ''point'' then Some (''point:'' @ toString (point h))
                 else Some (label h))
            | _ \<Rightarrow> None))"

definition MAX_UNIQUE :: nat where
  "MAX_UNIQUE = 14"

text \<open>
  The error responses of the handlers, by status and message, and the exception of the
  leaderboard.
\<close>

datatype error =
    NotInRoster          \<comment> \<open>400 "Name not in league"\<close>
  | AlreadyRolled        \<comment> \<open>409 "Already rolled"\<close>
  | OutcomesExhausted    \<comment> \<open>409 "All unique outcomes exhausted"\<close>
  | AllocationExhausted  \<comment> \<open>500 "Exceeded attempts for unique outcome"\<close>
  | NoNames              \<comment> \<open>400 "Need at least one name"\<close>
  | TypeError            \<comment> \<open>reading a property of \<open>undefined\<close>\<close>

text \<open>
  The \<open>do ... while (used.has(key))\<close> loop of the roll handler. Every iteration calls
  \<open>rollCeeLo\<close>, counts the call in \<open>tries\<close>, gives up once \<open>tries\<close> exceeds 20000, and
  otherwise goes round again while the key is taken. The loop's own recursion is
  bounded by \<open>tries\<close>; it returns \<open>None\<close> only when a call of \<open>rollCeeLo\<close> does not
  return. The value of \<open>tries\<close> at the exit is returned with the result.
\<close>

function roll_loop :: "key set \<Rightarrow> nat \<Rightarrow> rng \<Rightarrow> ((error + hand) \<times> nat \<times> rng) option" where
  "roll_loop used tries s =
    (case rollCeeLo s of
       None \<Rightarrow> None
     | Some (hand, s') \<Rightarrow>
         (if tries + 1 > 20000 then Some (Inl AllocationExhausted, tries + 1, s')
          else if outcomeKey (Hand hand) \<in> used then roll_loop used (tries + 1) s'
          else Some (Inr hand, tries + 1, s')))"
  by pat_completeness auto
termination
  by (relation "measure (\<lambda>(used, tries, s). 20001 - tries)") auto

declare roll_loop.simps [simp del]

text \<open>
  Every call of \<open>rollCeeLo\<close> that the loop makes on the stream \<open>s\<close> returns: the loop
  makes call \<open>i\<close> (from 0, at most 20000) when every call before it returned a hand whose
  key is used.
\<close>

definition calls_return :: "key set \<Rightarrow> rng \<Rightarrow> bool" where
  "calls_return used s \<longleftrightarrow>
     (\<forall>i\<le>20000.
        (\<forall>j<i. \<exists>h s'. nth_call j s = Some (h, s') \<and> outcomeKey (Hand h) \<in> used)
          \<longrightarrow> nth_call i s \<noteq> None)"

section \<open>The results object\<close>

text \<open>
  \<open>state.results\<close> is an object used as a dictionary. It has its own properties, written
  by assignment or read from the state file, and a prototype: \<open>Object.prototype\<close>
  (\<open>proto = None\<close>) for an object made by \<open>{}\<close> or read from the state file, or a hand,
  which an assignment to \<open>__proto__\<close> can put in its place.
\<close>

record dict =
  own :: "string \<rightharpoonup> jsvalue"
  proto :: "hand option"

text \<open>
  The names under which \<open>Object.prototype\<close> holds a function, and \<open>__proto__\<close>, under
  which it holds the accessor of an object's prototype. They belong to the language, not
  to the program.
\<close>

definition memberNames :: "string list" where
  "memberNames =
     [''constructor'', ''__defineGetter__'', ''__defineSetter__'', ''hasOwnProperty'',
      ''__lookupGetter__'', ''__lookupSetter__'', ''isPrototypeOf'', ''propertyIsEnumerable'',
      ''toString'', ''valueOf'', ''toLocaleString'']"

text \<open>The own properties of a hand.\<close>

definition fieldNames :: "hand \<Rightarrow> string list" where
  "fieldNames h =
     [''dice'', ''label'', ''type''] @
     (if type h = ''triple'' then [''triple''] else if type h = ''point'' then [''point''] else [])"

definition field :: "hand \<Rightarrow> string \<Rightarrow> jsvalue" where
  "field h n =
     (if n = ''dice'' then Arr (dice h)
      else if n = ''label'' then Str (label h)
      else if n = ''type'' then Str (type h)
      else if n = ''triple'' then Num (triple h)
      else Num (point h))"

text \<open>
  \<open>d[n]\<close>: the own property, else the property of the prototype chain, else \<open>undefined\<close>.
  Under \<open>__proto__\<close> the chain gives the prototype itself.
\<close>

definition get :: "dict \<Rightarrow> string \<Rightarrow> jsvalue" where
  "get d n =
     (case own d n of
        Some v \<Rightarrow> v
      | None \<Rightarrow>
          (if (case proto d of Some h \<Rightarrow> n \<in> set (fieldNames h) | None \<Rightarrow> False)
             then field (the (proto d)) n
           else if n = ''__proto__''
             then (case proto d of Some h \<Rightarrow> Hand h | None \<Rightarrow> ObjectPrototype)
           else if n \<in> set memberNames then Member n
           else Undefined))"

text \<open>
  \<open>d[n] = v\<close>. The value becomes an own property, except under \<open>__proto__\<close> when the
  object has no own property of that name: then the accessor's setter runs, which makes
  an object the new prototype and ignores a primitive value. The program reaches the
  setter only with a hand or \<open>Object.prototype\<close>; for the other values the model leaves
  the object as it is.
\<close>

definition assign :: "dict \<Rightarrow> string \<Rightarrow> jsvalue \<Rightarrow> dict" where
  "assign d n v =
     (if n = ''__proto__'' \<and> own d n = None
        then (case v of
                Hand h \<Rightarrow> d\<lparr>proto := Some h\<rparr>
              | ObjectPrototype \<Rightarrow> d\<lparr>proto := None\<rparr>
              | _ \<Rightarrow> d)
      else d\<lparr>own := (own d)(n \<mapsto> v)\<rparr>)"

text \<open>The names an object finds on its prototype chain.\<close>

definition inheritedNames :: "dict \<Rightarrow> string list" where
  "inheritedNames d =
     (case proto d of Some h \<Rightarrow> fieldNames h | None \<Rightarrow> []) @ ''__proto__'' # memberNames"

text \<open>A recorded outcome: an own property that holds a truthy value.\<close>

definition recorded :: "dict \<Rightarrow> string \<Rightarrow> bool" where
  "recorded d n = (case own d n of Some v \<Rightarrow> truthy v | None \<Rightarrow> False)"

section \<open>Leaderboard\<close>

text \<open>
  \<open>Array.prototype.sort\<close> with a comparator function: a stable sort. For a consistent
  comparator every stable sort returns the same array, the one insertion sort builds.
\<close>

fun insert_cmp :: "('a \<Rightarrow> 'a \<Rightarrow> int) \<Rightarrow> 'a \<Rightarrow> 'a list \<Rightarrow> 'a list" where
  "insert_cmp cmp x [] = [x]"
| "insert_cmp cmp x (y # ys) = (if cmp x y \<le> 0 then x # y # ys else y # insert_cmp cmp x ys)"

definition sort_cmp :: "('a \<Rightarrow> 'a \<Rightarrow> int) \<Rightarrow> 'a list \<Rightarrow> 'a list" where
  "sort_cmp cmp xs = foldr (insert_cmp cmp) xs []"

text \<open>
  What the language asks of a comparator for the sorted order to be defined: the sign of
  \<open>cmp a b\<close> is the opposite of the sign of \<open>cmp b a\<close>, and "not after" is transitive.
\<close>

definition consistent :: "('a \<Rightarrow> 'a \<Rightarrow> int) \<Rightarrow> bool" where
  "consistent cmp \<longleftrightarrow>
     (\<forall>a b. (cmp a b < 0) = (0 < cmp b a)) \<and>
     (\<forall>a b c. cmp a b \<le> 0 \<and> cmp b c \<le> 0 \<longrightarrow> cmp a c \<le> 0)"

text \<open>
  \<open>String.prototype.localeCompare\<close> is the host's collation, not part of the program: it
  is the parameter \<open>localeCompare\<close> of the functions below. \<open>compareCodeUnits\<close>, the order
  of the character codes, is a consistent comparator that stands for it where the
  leaderboard is run on concrete names.
\<close>

fun compareCodeUnits :: "string \<Rightarrow> string \<Rightarrow> int" where
  "compareCodeUnits [] [] = 0"
| "compareCodeUnits [] (y # ys) = - 1"
| "compareCodeUnits (x # xs) [] = 1"
| "compareCodeUnits (x # xs) (y # ys) =
     (if (of_char x :: nat) < of_char y then - 1
      else if (of_char y :: nat) < of_char x then 1
      else compareCodeUnits xs ys)"

text \<open>The server's state.\<close>

record state =
  friends :: "string list"
  results :: dict
  updatedAt :: string

record entry =
  name :: string
  hand :: jsvalue

record scored = entry +
  score :: int

datatype winner =
    NotReady
  | Ready (leaders: "scored list") (topScore: int)

text \<open>The comparator of the sort: \<open>B.score-A.score || A.name.localeCompare(B.name)\<close>.\<close>

definition byScoreThenName :: "(string \<Rightarrow> string \<Rightarrow> int) \<Rightarrow> scored \<Rightarrow> scored \<Rightarrow> int" where
  "byScoreThenName localeCompare A B =
     (if score B - score A \<noteq> 0 then score B - score A else localeCompare (name A) (name B))"

text \<open>
  \<open>computeLeaders(results)\<close>, with the global \<open>state\<close> it reads as an argument. Reading
  \<open>withScores[0].score\<close> of an empty array throws a TypeError.
\<close>

definition computeLeaders ::
  "(string \<Rightarrow> string \<Rightarrow> int) \<Rightarrow> state \<Rightarrow> dict \<Rightarrow> error + winner" where
  "computeLeaders localeCompare st res =
    (let entries = map (\<lambda>n. \<lparr>name = n, hand = orNull (get res n)\<rparr>) (friends st);
         rolled = filter (\<lambda>e. truthy (hand e)) entries
     in if length rolled \<noteq> length (friends st) then Inr NotReady
        else
          (let withScores =
                 sort_cmp (byScoreThenName localeCompare)
                   (map (\<lambda>e. \<lparr>name = name e, hand = hand e, score = rankScore (hand e)\<rparr>) rolled)
           in case withScores of
                [] \<Rightarrow> Inl TypeError
              | w # ws \<Rightarrow>
                  (let topScore = score w;
                       leaders = filter (\<lambda>e. score e = topScore) withScores
                   in Inr (Ready leaders topScore))))"

section \<open>Request handlers\<close>

text \<open>
  The handlers take the state and return it, changed or not, with the response. The
  clock (\<open>new Date().toISOString()\<close>) is the argument \<open>now\<close>. Writing the state file
  copies the state and does not change it; it is left out.
\<close>

datatype response =
    RollOk (rhand: hand) (rupdatedAt: string) (rwinner: winner)
  | SetNamesOk (rfriends: "string list") (rupdatedAt: string)

text \<open>
  \<open>POST /api/roll\<close>; \<open>nm\<close> is the request's \<open>name\<close> after \<open>trim()\<close>. \<open>used\<close> is the set of
  the keys of \<open>Object.values(state.results)\<close>, the values of the own properties. An
  exception thrown after the hand is stored leaves the stored hand in place.
\<close>

definition roll ::
  "(string \<Rightarrow> string \<Rightarrow> int) \<Rightarrow> string \<Rightarrow> state \<Rightarrow> string \<Rightarrow> rng
     \<Rightarrow> ((error + response) \<times> state \<times> rng) option" where
  "roll localeCompare now st nm s =
    (if nm \<notin> set (friends st) then Some (Inl NotInRoster, st, s)
     else if truthy (get (results st) nm) then Some (Inl AlreadyRolled, st, s)
     else
       (let used = outcomeKey ` ran (own (results st)) in
        if card used \<ge> MAX_UNIQUE then Some (Inl OutcomesExhausted, st, s)
        else
          (case roll_loop used 0 s of
             None \<Rightarrow> None
           | Some (Inl e, tries, s') \<Rightarrow> Some (Inl e, st, s')
           | Some (Inr h, tries, s') \<Rightarrow>
               (let st' = st\<lparr>results := assign (results st) nm (Hand h), updatedAt := now\<rparr> in
                case computeLeaders localeCompare st' (results st') of
                  Inl e \<Rightarrow> Some (Inl e, st', s')
                | Inr w \<Rightarrow> Some (Inr (RollOk h (updatedAt st') w), st', s')))))"

text \<open>
  \<open>POST /api/admin/set-names\<close>, for a request that carries an array of strings.
  \<open>trim\<close> is \<open>String.prototype.trim\<close>, a parameter. The filter with the \<open>seen\<close> set keeps
  the first occurrence of every name. The loop copies into a new object \<open>{}\<close> whatever
  truthy value the old results give under a name of the new roster.
\<close>

fun dedupe :: "string set \<Rightarrow> string list \<Rightarrow> string list" where
  "dedupe seen [] = []"
| "dedupe seen (n # ns) = (if n \<in> seen then dedupe seen ns else n # dedupe (insert n seen) ns)"

definition copyResults :: "dict \<Rightarrow> string list \<Rightarrow> dict" where
  "copyResults res ns =
     foldl (\<lambda>newResults n. if truthy (get res n) then assign newResults n (get res n) else newResults)
       \<lparr>own = Map.empty, proto = None\<rparr> ns"

definition setNames ::
  "(string \<Rightarrow> string) \<Rightarrow> string \<Rightarrow> state \<Rightarrow> string list \<Rightarrow> (error + response) \<times> state" where
  "setNames trim now st raw =
    (let fs = dedupe {} (filter (\<lambda>n. n \<noteq> []) (map trim raw)) in
     if length fs = 0 then (Inl NoNames, st)
     else
       (let st' = \<lparr>friends = fs, results = copyResults (results st) fs, updatedAt = now\<rparr>
        in (Inr (SetNamesOk (friends st') (updatedAt st')), st')))"

text \<open>
  The invariant of the results: no two names hold values with the same key.
\<close>

definition noDuplicateKeys :: "dict \<Rightarrow> bool" where
  "noDuplicateKeys res \<longleftrightarrow> inj_on (\<lambda>n. outcomeKey (the (own res n))) (dom (own res))"

section \<open>Facts about the roller and the allocation loop\<close>

lemma sort3_cases:
  "sort [x, y, z :: int] =
     (if x \<le> y then (if y \<le> z then [x, y, z] else if x \<le> z then [x, z, y] else [z, x, y])
      else (if x \<le> z then [y, x, z] else if y \<le> z then [y, z, x] else [z, y, x]))"
  by auto

lemma sort3_obtain:
  obtains a b c :: int where
    "sort [x, y, z] = [a, b, c]" "a \<le> b" "b \<le> c"
    "(a, b, c) \<in> {(x, y, z), (x, z, y), (y, x, z), (y, z, x), (z, x, y), (z, y, x)}"
proof -
  let ?d = "sort [x, y, z]"
  have "sort [x, y, z] = [?d ! 0, ?d ! 1, ?d ! 2] \<and> ?d ! 0 \<le> ?d ! 1 \<and> ?d ! 1 \<le> ?d ! 2
    \<and> (?d ! 0, ?d ! 1, ?d ! 2) \<in> {(x, y, z), (x, z, y), (y, x, z), (y, z, x), (z, x, y), (z, y, x)}"
    unfolding sort3_cases by simp
  then show thesis using that by blast
qed

lemma classify_sorted:
  "a \<le> b \<Longrightarrow> b \<le> c \<Longrightarrow> sort [x, y, z] = [a, b, c] \<Longrightarrow>
   rollCeeLo_classify x y z =
     (if a = 4 \<and> b = 5 \<and> c = 6 then Some (Hand456 [a, b, c] ''4-5-6 (auto win)'')
      else if a = 1 \<and> b = 2 \<and> c = 3 then Some (Hand123 [a, b, c] ''1-2-3 (auto loss)'')
      else if a = c then Some (HandTriple [a, b, c] (''Triple '' @ toString a) a)
      else if a = b then Some (HandPoint [a, b, c] (''Point '' @ toString c) c)
      else if b = c then Some (HandPoint [a, b, c] (''Point '' @ toString a) a)
      else None)"
  by (simp add: rollCeeLo_classify_def Let_def)


lemma classify_None_iff:
  "(rollCeeLo_classify x y z = None) =
     (distinct [x, y, z] \<and> sort [x, y, z] \<noteq> [4, 5, 6] \<and> sort [x, y, z] \<noteq> [1, 2, 3])"
proof -
  obtain a b c where s: "sort [x, y, z] = [a, b, c]" and ab: "a \<le> b" and bc: "b \<le> c"
    by (rule sort3_obtain)
  have "distinct [x, y, z] = distinct (sort [x, y, z])"
    by (simp only: distinct_sort)
  also have "\<dots> = (a < b \<and> b < c)"
    unfolding s using ab bc by auto
  finally have d: "distinct [x, y, z] = (a < b \<and> b < c)" .
  show ?thesis
    unfolding d classify_sorted [OF ab bc s] s using ab bc by auto
qed

lemma draw3_eq:
  "draw3 s = ((1 + int (shd s), 1 + int (shd (stl s)), 1 + int (shd (stl (stl s)))), sdrop 3 s)"
  by (simp add: draw3_def d6_def numeral_3_eq_3)

lemma rollCeeLo_unfold:
  "rollCeeLo s =
     (case rollCeeLo_classify (1 + int (shd s)) (1 + int (shd (stl s))) (1 + int (shd (stl (stl s)))) of
        Some h \<Rightarrow> Some (h, sdrop 3 s)
      | None \<Rightarrow> rollCeeLo (sdrop 3 s))"
  by (subst rollCeeLo.simps) (simp add: draw3_eq)

lemma rollCeeLo_suffix:
  assumes "rollCeeLo s = Some y"
  shows "\<exists>k. snd y = sdrop k s"
proof (rule rollCeeLo.raw_induct [where P = "\<lambda>s y. \<exists>k. snd y = sdrop k s", OF _ assms])
  fix f :: "rng \<Rightarrow> (hand \<times> rng) option" and s sa
  assume IH: "\<And>x y. f x = Some y \<Longrightarrow> \<exists>k. snd y = sdrop k x"
    and body: "(case draw3 s of ((x, y, z), s') \<Rightarrow>
        (case rollCeeLo_classify x y z of None \<Rightarrow> f s' | Some h \<Rightarrow> Some (h, s'))) = Some sa"
  show "\<exists>k. snd sa = sdrop k s"
  proof (cases "rollCeeLo_classify (1 + int (shd s)) (1 + int (shd (stl s))) (1 + int (shd (stl (stl s))))")
    case None
    with body have "f (sdrop 3 s) = Some sa"
      by (simp add: draw3_eq)
    from IH [OF this] obtain k where "snd sa = sdrop k (sdrop 3 s)" ..
    then have "snd sa = sdrop (3 + k) s" by simp
    then show ?thesis ..
  next
    case (Some h)
    with body have "sa = (h, sdrop 3 s)"
      by (simp add: draw3_eq)
    then have "snd sa = sdrop 3 s" by simp
    then show ?thesis ..
  qed
qed

lemma rollCeeLo_sconst0:
  "rollCeeLo (sconst 0) = Some (HandTriple [1, 1, 1] (''Triple '' @ toString 1) 1, sconst 0)"
  by (subst rollCeeLo_unfold) (simp add: rollCeeLo_classify_def)

lemma cycle124: "cycle [0, 1, 3 :: nat] = [0, 1, 3] @- cycle [0, 1, 3]"
  by (rule cycle_decomp) simp

lemma draw3_cycle124: "draw3 (cycle [0, 1, 3]) = ((1, 2, 4), cycle [0, 1, 3])"
  by (subst cycle124) (simp add: draw3_def d6_def)

lemma rollCeeLo_cycle124_aux:
  assumes "rollCeeLo s = Some y"
  shows "s \<noteq> cycle [0, 1, 3]"
proof (rule rollCeeLo.raw_induct [where P = "\<lambda>s y. s \<noteq> cycle [0, 1, 3]", OF _ assms])
  fix f :: "rng \<Rightarrow> (hand \<times> rng) option" and s sa
  assume IH: "\<And>x y. f x = Some y \<Longrightarrow> x \<noteq> cycle [0, 1, 3]"
    and body: "(case draw3 s of ((x, y, z), s') \<Rightarrow>
        (case rollCeeLo_classify x y z of None \<Rightarrow> f s' | Some h \<Rightarrow> Some (h, s'))) = Some sa"
  show "s \<noteq> cycle [0, 1, 3]"
  proof
    assume s: "s = cycle [0, 1, 3]"
    have c: "rollCeeLo_classify 1 2 4 = None"
      by (simp add: rollCeeLo_classify_def)
    from body have "f (cycle [0, 1, 3]) = Some sa"
      unfolding s draw3_cycle124 by (simp add: c)
    from IH [OF this] show False by simp
  qed
qed

lemma rollCeeLo_cycle124: "rollCeeLo (cycle [0, 1, 3]) = None"
  using rollCeeLo_cycle124_aux [of "cycle [0, 1, 3]"] by (cases "rollCeeLo (cycle [0, 1, 3])") auto

lemma roll_loop_Inr:
  "roll_loop used tries s = Some (Inr h, t, s') \<Longrightarrow>
     outcomeKey (Hand h) \<notin> used \<and> tries < t \<and> t \<le> 20000"
proof (induction used tries s rule: roll_loop.induct)
  case (1 used tries s)
  from "1.prems" obtain h0 s0 where r: "rollCeeLo s = Some (h0, s0)"
    by (subst (asm) roll_loop.simps) (auto split: option.splits)
  show ?case
  proof (cases "tries + 1 > 20000")
    case True
    with "1.prems" r show ?thesis
      by (subst (asm) roll_loop.simps) simp
  next
    case small: False
    show ?thesis
    proof (cases "outcomeKey (Hand h0) \<in> used")
      case True
      with "1.prems" r small have "roll_loop used (tries + 1) s0 = Some (Inr h, t, s')"
        by (subst (asm) roll_loop.simps) simp
      from "1.IH" [OF r refl small True this] show ?thesis by simp
    next
      case False
      with "1.prems" r small show ?thesis
        by (subst (asm) roll_loop.simps) auto
    qed
  qed
qed

lemma roll_loop_Inl:
  "roll_loop used tries s = Some (Inl e, t, s') \<Longrightarrow>
     e = AllocationExhausted \<and> tries < t \<and> (tries \<le> 20000 \<longrightarrow> t = 20001)"
proof (induction used tries s rule: roll_loop.induct)
  case (1 used tries s)
  from "1.prems" obtain h0 s0 where r: "rollCeeLo s = Some (h0, s0)"
    by (subst (asm) roll_loop.simps) (auto split: option.splits)
  show ?case
  proof (cases "tries + 1 > 20000")
    case True
    with "1.prems" r show ?thesis
      by (subst (asm) roll_loop.simps) auto
  next
    case small: False
    show ?thesis
    proof (cases "outcomeKey (Hand h0) \<in> used")
      case True
      with "1.prems" r small have "roll_loop used (tries + 1) s0 = Some (Inl e, t, s')"
        by (subst (asm) roll_loop.simps) simp
      from "1.IH" [OF r refl small True this] small show ?thesis by simp
    next
      case False
      with "1.prems" r small show ?thesis
        by (subst (asm) roll_loop.simps) auto
    qed
  qed
qed

text \<open>
  The loop returns when every call of \<open>rollCeeLo\<close> it makes returns: call \<open>i\<close> is made
  when the calls before it returned hands with used keys.
\<close>

lemma roll_loop_returns:
  "tries \<le> 20000 \<Longrightarrow>
   \<forall>i\<le>20000 - tries.
      (\<forall>j<i. \<exists>h s'. nth_call j s = Some (h, s') \<and> outcomeKey (Hand h) \<in> used)
        \<longrightarrow> nth_call i s \<noteq> None \<Longrightarrow>
   roll_loop used tries s \<noteq> None"
proof (induction used tries s rule: roll_loop.induct)
  case (1 used tries s)
  from "1.prems"(2) [rule_format, of 0] have "nth_call 0 s \<noteq> None" by simp
  then obtain h0 s0 where r: "rollCeeLo s = Some (h0, s0)" by auto
  show ?case
  proof (cases "tries + 1 > 20000")
    case True
    with r show ?thesis by (subst roll_loop.simps) simp
  next
    case small: False
    show ?thesis
    proof (cases "outcomeKey (Hand h0) \<in> used")
      case True
      have next_calls: "\<forall>i\<le>20000 - (tries + 1).
          (\<forall>j<i. \<exists>h s'. nth_call j s0 = Some (h, s') \<and> outcomeKey (Hand h) \<in> used)
            \<longrightarrow> nth_call i s0 \<noteq> None"
      proof (intro allI impI)
        fix i
        assume i: "i \<le> 20000 - (tries + 1)"
          and before: "\<forall>j<i. \<exists>h s'. nth_call j s0 = Some (h, s') \<and> outcomeKey (Hand h) \<in> used"
        from i small have i': "Suc i \<le> 20000 - tries" by simp
        have "\<exists>h s'. nth_call j s = Some (h, s') \<and> outcomeKey (Hand h) \<in> used" if "j < Suc i" for j
        proof (cases j)
          case 0
          with r True show ?thesis by simp
        next
          case (Suc j')
          with that have "j' < i" by simp
          with before have "\<exists>h s'. nth_call j' s0 = Some (h, s') \<and> outcomeKey (Hand h) \<in> used"
            by simp
          with Suc r show ?thesis by simp
        qed
        with "1.prems"(2) [rule_format, of "Suc i"] i' have "nth_call (Suc i) s \<noteq> None" by blast
        with r show "nth_call i s0 \<noteq> None" by simp
      qed
      from small have "tries + 1 \<le> 20000" by simp
      from "1.IH" [OF r refl small True this next_calls] r small True show ?thesis
        by (subst roll_loop.simps) simp
    next
      case False
      with r small show ?thesis by (subst roll_loop.simps) simp
    qed
  qed
qed

lemma roll_loop_calls:
  "tries \<le> 20000 \<Longrightarrow> roll_loop used tries s \<noteq> None \<Longrightarrow>
   \<forall>i\<le>20000 - tries.
      (\<forall>j<i. \<exists>h s'. nth_call j s = Some (h, s') \<and> outcomeKey (Hand h) \<in> used)
        \<longrightarrow> nth_call i s \<noteq> None"
proof (induction used tries s rule: roll_loop.induct)
  case (1 used tries s)
  from "1.prems"(2) obtain h0 s0 where r: "rollCeeLo s = Some (h0, s0)"
    by (subst (asm) roll_loop.simps) (auto split: option.splits)
  show ?case
  proof (intro allI impI)
    fix i
    assume i: "i \<le> 20000 - tries"
      and before: "\<forall>j<i. \<exists>h s'. nth_call j s = Some (h, s') \<and> outcomeKey (Hand h) \<in> used"
    show "nth_call i s \<noteq> None"
    proof (cases i)
      case 0
      with r show ?thesis by simp
    next
      case (Suc i')
      with i have small: "\<not> tries + 1 > 20000" by simp
      from before Suc have "\<exists>h s'. nth_call 0 s = Some (h, s') \<and> outcomeKey (Hand h) \<in> used"
        by blast
      with r have used0: "outcomeKey (Hand h0) \<in> used" by simp
      from "1.prems"(2) r small used0 have next_loop: "roll_loop used (tries + 1) s0 \<noteq> None"
        by (subst (asm) roll_loop.simps) simp
      from small have le: "tries + 1 \<le> 20000" by simp
      have before': "\<forall>j<i'. \<exists>h s'. nth_call j s0 = Some (h, s') \<and> outcomeKey (Hand h) \<in> used"
      proof (intro allI impI)
        fix j assume "j < i'"
        with Suc have "Suc j < i" by simp
        with before have "\<exists>h s'. nth_call (Suc j) s = Some (h, s') \<and> outcomeKey (Hand h) \<in> used"
          by blast
        with r show "\<exists>h s'. nth_call j s0 = Some (h, s') \<and> outcomeKey (Hand h) \<in> used" by simp
      qed
      from i Suc have "i' \<le> 20000 - (tries + 1)" by simp
      with "1.IH" [OF r refl small used0 le next_loop] before'
      have "nth_call i' s0 \<noteq> None" by blast
      with r Suc show ?thesis by simp
    qed
  qed
qed

lemma roll_loop_diverges:
  "rollCeeLo s = None \<Longrightarrow> roll_loop used tries s = None"
  by (subst roll_loop.simps) simp

lemma roll_loop_sconst0:
  "roll_loop {} 0 (sconst 0) = Some (Inr (HandTriple [1, 1, 1] ''Triple 1'' 1), 1, sconst 0)"
  by (subst roll_loop.simps) (simp add: rollCeeLo_sconst0 toString_def showNat.simps)

lemma rollCeeLo_111_then:
  "rollCeeLo (0 ## 0 ## 0 ## s) = Some (HandTriple [1, 1, 1] ''Triple 1'' 1, s)"
  by (subst rollCeeLo_unfold)
    (simp add: rollCeeLo_classify_def toString_def showNat.simps numeral_3_eq_3)

lemma rollCeeLo_456_then:
  "rollCeeLo (3 ## 4 ## 5 ## s) = Some (Hand456 [4, 5, 6] ''4-5-6 (auto win)'', s)"
  by (subst rollCeeLo_unfold) (simp add: rollCeeLo_classify_def numeral_3_eq_3)

section \<open>Facts about sorting and the leaderboard\<close>

lemma mset_insert_cmp: "mset (insert_cmp cmp x xs) = add_mset x (mset xs)"
  by (induction xs) simp_all

lemma mset_sort_cmp: "mset (sort_cmp cmp xs) = mset xs"
  unfolding sort_cmp_def by (induction xs) (simp_all add: mset_insert_cmp)

lemma set_sort_cmp: "set (sort_cmp cmp xs) = set xs"
  using mset_sort_cmp [of cmp xs] by (metis set_mset_mset)

lemma length_sort_cmp: "length (sort_cmp cmp xs) = length xs"
  using mset_sort_cmp [of cmp xs] by (metis size_mset)

lemma set_insert_cmp: "set (insert_cmp cmp x xs) = insert x (set xs)"
  using mset_insert_cmp [of cmp x xs] by (metis set_mset_mset set_mset_add_mset_insert)

lemma sorted_insert_cmp:
  assumes "consistent cmp" "sorted_wrt (\<lambda>a b. cmp a b \<le> 0) xs"
  shows "sorted_wrt (\<lambda>a b. cmp a b \<le> 0) (insert_cmp cmp x xs)"
  using assms(2)
proof (induction xs)
  case Nil
  then show ?case by simp
next
  case (Cons y ys)
  have total: "cmp a b \<le> 0 \<or> cmp b a \<le> 0" for a b
    using assms(1) unfolding consistent_def by (metis not_less order_less_imp_le)
  have trans: "cmp a b \<le> 0 \<Longrightarrow> cmp b c \<le> 0 \<Longrightarrow> cmp a c \<le> 0" for a b c
    using assms(1) unfolding consistent_def by blast
  show ?case
  proof (cases "cmp x y \<le> 0")
    case True
    with Cons.prems trans show ?thesis by auto
  next
    case False
    with total have "cmp y x \<le> 0" by blast
    with False Cons show ?thesis by (auto simp: set_insert_cmp)
  qed
qed

lemma sorted_sort_cmp:
  "consistent cmp \<Longrightarrow> sorted_wrt (\<lambda>a b. cmp a b \<le> 0) (sort_cmp cmp xs)"
  unfolding sort_cmp_def by (induction xs) (simp_all add: sorted_insert_cmp)

lemma consistent_byScoreThenName:
  assumes "consistent lc"
  shows "consistent (byScoreThenName lc)"
proof -
  have sym: "(lc a b < 0) = (0 < lc b a)" for a b
    using assms unfolding consistent_def by blast
  have trans: "lc a b \<le> 0 \<Longrightarrow> lc b c \<le> 0 \<Longrightarrow> lc a c \<le> 0" for a b c
    using assms unfolding consistent_def by blast
  have 1: "(byScoreThenName lc A B < 0) = (0 < byScoreThenName lc B A)" for A B
    using sym [of "name A" "name B"] by (auto simp: byScoreThenName_def)
  have 2: "byScoreThenName lc A C \<le> 0"
    if "byScoreThenName lc A B \<le> 0" "byScoreThenName lc B C \<le> 0" for A B C
    using that trans [of "name A" "name B" "name C"]
    by (auto simp: byScoreThenName_def split: if_splits)
  show ?thesis unfolding consistent_def using 1 2 by blast
qed

lemma byScoreThenName_le:
  "(byScoreThenName lc A B \<le> 0) =
     (score B < score A \<or> (score A = score B \<and> lc (name A) (name B) \<le> 0))"
  by (auto simp: byScoreThenName_def)

lemma length_filter_eq_iff: "(length (filter P xs) = length xs) = (\<forall>x\<in>set xs. P x)"
proof (induction xs)
  case Nil
  then show ?case by simp
next
  case (Cons x xs)
  show ?case
  proof (cases "P x")
    case True
    with Cons show ?thesis by simp
  next
    case False
    have "length (filter P xs) \<le> length xs" by simp
    then have "length (filter P xs) \<noteq> Suc (length xs)" by arith
    with False show ?thesis by simp
  qed
qed

lemma truthy_orNull [simp]: "truthy (orNull v) = truthy v"
  by (simp add: orNull_def)

lemma orNull_truthy: "truthy v \<Longrightarrow> orNull v = v"
  by (simp add: orNull_def)

lemma computeLeaders_missing:
  assumes "\<exists>n\<in>set (friends st). \<not> truthy (get res n)"
  shows "computeLeaders lc st res = Inr NotReady"
proof -
  have "length (filter (\<lambda>e. truthy (hand e))
          (map (\<lambda>n. \<lparr>name = n, hand = orNull (get res n)\<rparr>) (friends st)))
      \<noteq> length (friends st)"
    using assms length_filter_eq_iff
      [of "\<lambda>e. truthy (hand e)" "map (\<lambda>n. \<lparr>name = n, hand = orNull (get res n)\<rparr>) (friends st)"]
    by auto
  then show ?thesis by (simp add: computeLeaders_def Let_def)
qed

lemma computeLeaders_all_rolled:
  assumes "\<forall>n\<in>set (friends st). truthy (get res n)"
  shows "computeLeaders lc st res =
     (case sort_cmp (byScoreThenName lc)
             (map (\<lambda>n. \<lparr>name = n, hand = get res n, score = rankScore (get res n)\<rparr>) (friends st)) of
        [] \<Rightarrow> Inl TypeError
      | w # ws \<Rightarrow> Inr (Ready (filter (\<lambda>e. score e = score w) (w # ws)) (score w)))"
proof -
  let ?entries = "map (\<lambda>n. \<lparr>name = n, hand = orNull (get res n)\<rparr>) (friends st)"
  have f: "filter (\<lambda>e. truthy (hand e)) ?entries = ?entries"
    using assms by (simp add: filter_id_conv)
  have m: "map (\<lambda>e. \<lparr>name = name e, hand = hand e, score = rankScore (hand e)\<rparr>) ?entries
      = map (\<lambda>n. \<lparr>name = n, hand = get res n, score = rankScore (get res n)\<rparr>) (friends st)"
    using assms by (simp add: orNull_truthy)
  show ?thesis
    unfolding computeLeaders_def Let_def f m
    by (simp split: list.splits)
qed

lemma computeLeaders_Ready:
  assumes "\<forall>n\<in>set (friends st). truthy (get res n)" "friends st \<noteq> []"
  shows "\<exists>ls tp. computeLeaders lc st res = Inr (Ready ls tp)"
proof -
  let ?xs = "map (\<lambda>n. \<lparr>name = n, hand = get res n, score = rankScore (get res n)\<rparr>) (friends st)"
  have "length (sort_cmp (byScoreThenName lc) ?xs) \<noteq> 0"
    using assms(2) by (simp add: length_sort_cmp)
  then obtain w ws where "sort_cmp (byScoreThenName lc) ?xs = w # ws"
    by (cases "sort_cmp (byScoreThenName lc) ?xs") auto
  then show ?thesis
    unfolding computeLeaders_all_rolled [OF assms(1)] by simp
qed

lemma computeLeaders_Inl:
  assumes "computeLeaders lc st res = Inl e"
  shows "friends st = [] \<and> e = TypeError"
proof (cases "\<exists>n\<in>set (friends st). \<not> truthy (get res n)")
  case True
  with computeLeaders_missing [OF True, of lc] assms show ?thesis by simp
next
  case False
  then have all: "\<forall>n\<in>set (friends st). truthy (get res n)" by simp
  show ?thesis
  proof (cases "friends st = []")
    case True
    with assms show ?thesis by (simp add: computeLeaders_def sort_cmp_def)
  next
    case False
    from computeLeaders_Ready [OF all False, of lc] assms show ?thesis by auto
  qed
qed

lemma computeLeaders_Ready_eq:
  assumes "computeLeaders lc st res = Inr (Ready ls tp)"
  shows "(\<forall>n\<in>set (friends st). truthy (get res n)) \<and>
    (\<exists>w ws. sort_cmp (byScoreThenName lc)
               (map (\<lambda>n. \<lparr>name = n, hand = get res n, score = rankScore (get res n)\<rparr>) (friends st))
             = w # ws
       \<and> tp = score w \<and> ls = filter (\<lambda>e. score e = tp) (w # ws))"
proof -
  have all: "\<forall>n\<in>set (friends st). truthy (get res n)"
  proof (rule ccontr)
    assume "\<not> (\<forall>n\<in>set (friends st). truthy (get res n))"
    then have "\<exists>n\<in>set (friends st). \<not> truthy (get res n)" by simp
    from computeLeaders_missing [OF this, of lc] assms show False by simp
  qed
  let ?ys = "sort_cmp (byScoreThenName lc)
               (map (\<lambda>n. \<lparr>name = n, hand = get res n, score = rankScore (get res n)\<rparr>) (friends st))"
  from assms have c: "(case ?ys of [] \<Rightarrow> Inl TypeError
      | w # ws \<Rightarrow> Inr (Ready (filter (\<lambda>e. score e = score w) (w # ws)) (score w)))
      = Inr (Ready ls tp)"
    unfolding computeLeaders_all_rolled [OF all] .
  then obtain w ws where ys: "?ys = w # ws"
    by (cases ?ys) auto
  from c have "tp = score w \<and> ls = filter (\<lambda>e. score e = tp) (w # ws)"
    unfolding ys by auto
  with all ys show ?thesis by blast
qed

text \<open>Under a name that the object does not inherit, a lookup finds the own property or nothing.\<close>

lemma get_not_inherited:
  assumes "n \<notin> set (inheritedNames d)"
  shows "get d n = (case own d n of Some v \<Rightarrow> v | None \<Rightarrow> Undefined)"
  using assms by (auto simp: get_def inheritedNames_def split: option.splits)

lemma truthy_get_not_inherited:
  assumes "n \<notin> set (inheritedNames d)"
  shows "truthy (get d n) = recorded d n"
  unfolding get_not_inherited [OF assms] recorded_def by (simp split: option.splits)

lemma get_restrict: "n \<in> S \<Longrightarrow> get (d\<lparr>own := own d |` S\<rparr>) n = get d n"
  by (simp add: get_def cong: option.case_cong)

lemma compareCodeUnits_sym: "(compareCodeUnits a b < 0) = (0 < compareCodeUnits b a)"
  by (induction a b rule: compareCodeUnits.induct) auto

lemma compareCodeUnits_trans:
  "compareCodeUnits a b \<le> 0 \<Longrightarrow> compareCodeUnits b c \<le> 0 \<Longrightarrow> compareCodeUnits a c \<le> 0"
proof (induction a arbitrary: b c)
  case Nil
  then show ?case by (cases c) simp_all
next
  case (Cons x xs)
  from Cons.prems(1) obtain y ys where b: "b = y # ys" by (cases b) auto
  from Cons.prems(2) b obtain z zs where c: "c = z # zs" by (cases c) auto
  from Cons.prems Cons.IH [of ys zs] show ?case
    unfolding b c by (auto split: if_splits)
qed

lemma consistent_compareCodeUnits: "consistent compareCodeUnits"
  unfolding consistent_def using compareCodeUnits_sym compareCodeUnits_trans by blast

section \<open>Facts about the request handlers\<close>

lemma get_proto_truthy: "own d ''__proto__'' = None \<Longrightarrow> truthy (get d ''__proto__'')"
  by (auto simp: get_def fieldNames_def field_def split: option.splits)

lemma assign_own:
  assumes "\<not> truthy (get d n)"
  shows "assign d n v = d\<lparr>own := (own d)(n \<mapsto> v)\<rparr>"
  using assms get_proto_truthy [of d] by (auto simp: assign_def)

lemma roll_Inl:
  assumes "roll lc now st nm s = Some (Inl e, st', s')"
  shows "st' = st"
proof (rule ccontr)
  assume neq: "st' \<noteq> st"
  from assms neq have in_roster: "nm \<in> set (friends st)"
    by (auto simp: roll_def split: if_splits)
  from assms neq obtain h where
    "computeLeaders lc (st\<lparr>results := assign (results st) nm (Hand h), updatedAt := now\<rparr>)
       (assign (results st) nm (Hand h)) = Inl e"
    by (auto simp: roll_def Let_def split: if_splits option.splits sum.splits prod.splits)
  from computeLeaders_Inl [OF this] in_roster show False by simp
qed

lemma roll_Inr:
  assumes "roll lc now st nm s = Some (Inr r, st', s')"
  shows "\<exists>h t w. roll_loop (outcomeKey ` ran (own (results st))) 0 s = Some (Inr h, t, s')
     \<and> r = RollOk h now w
     \<and> st' = st\<lparr>results := assign (results st) nm (Hand h), updatedAt := now\<rparr>
     \<and> nm \<in> set (friends st) \<and> \<not> truthy (get (results st) nm)"
  using assms
  by (auto simp: roll_def Let_def split: if_splits option.splits sum.splits prod.splits)

section \<open>Classification of the dice\<close>

text \<open>
  C1 (as amended). Three dice are given at most one class, and never a fifth kind. They
  are given none exactly when they are pairwise different and are neither 4-5-6 nor
  1-2-3 in some order; such a roll is thrown again. In every other case the class is
  one of 4-5-6, 1-2-3, triple and point. Of the 216 ordered triples of values from 1 to
  6, 108 are given no class.
\<close>

theorem C1_classification:
  "(rollCeeLo_classify x y z = None) =
     (distinct [x, y, z] \<and> sort [x, y, z] \<noteq> [4, 5, 6] \<and> sort [x, y, z] \<noteq> [1, 2, 3])
   \<and> (case rollCeeLo_classify x y z of
        None \<Rightarrow> True
      | Some h \<Rightarrow> type h \<in> {''456'', ''123'', ''triple'', ''point''})
   \<and> length (filter (\<lambda>(x, y, z). rollCeeLo_classify x y z = None)
        (List.product [1, 2, 3, 4, 5, 6] (List.product [1, 2, 3, 4, 5, 6] [1, 2, 3, 4, 5, 6])))
      = 108"
proof (intro conjI)
  show "(rollCeeLo_classify x y z = None) =
     (distinct [x, y, z] \<and> sort [x, y, z] \<noteq> [4, 5, 6] \<and> sort [x, y, z] \<noteq> [1, 2, 3])"
    by (rule classify_None_iff)
  show "case rollCeeLo_classify x y z of
        None \<Rightarrow> True
      | Some h \<Rightarrow> type h \<in> {''456'', ''123'', ''triple'', ''point''}"
  proof (cases "rollCeeLo_classify x y z")
    case None
    then show ?thesis by simp
  next
    case (Some h)
    then show ?thesis by (cases h) simp_all
  qed
  show "length (filter (\<lambda>(x, y, z). rollCeeLo_classify x y z = None)
        (List.product [1, 2, 3, 4, 5, 6] (List.product [1, 2, 3, 4, 5, 6] [1, 2, 3, 4, 5, 6])))
      = 108"
    by (simp add: classify_None_iff)
qed

text \<open>
  C1 as stated fails: the dice 1, 2, 4 are given no class.
\<close>

theorem C1_triple_1_2_4_unclassified: "rollCeeLo_classify 1 2 4 = None"
  by (simp add: rollCeeLo_classify_def)

text \<open>
  C7. When the dice are classified as a point, two of them are equal, the third is the
  point value, and the point value differs from the pair. Conversely a pair \<open>p\<close> with
  any other value \<open>v\<close>, in any order, is the point \<open>v\<close>.
\<close>

theorem C7_point:
  "(rollCeeLo_classify x y z = Some h \<and> type h = ''point'' \<longrightarrow>
      (x = y \<and> z = point h \<and> point h \<noteq> x) \<or>
      (y = z \<and> x = point h \<and> point h \<noteq> y) \<or>
      (x = z \<and> y = point h \<and> point h \<noteq> x))
   \<and> (p \<noteq> v \<longrightarrow>
        (\<exists>d l. rollCeeLo_classify p p v = Some (HandPoint d l v)) \<and>
        (\<exists>d l. rollCeeLo_classify p v p = Some (HandPoint d l v)) \<and>
        (\<exists>d l. rollCeeLo_classify v p p = Some (HandPoint d l v)))"
proof (intro conjI impI)
  assume asm: "rollCeeLo_classify x y z = Some h \<and> type h = ''point''"
  obtain a b c where s: "sort [x, y, z] = [a, b, c]" and ab: "a \<le> b" and bc: "b \<le> c"
    and perm: "(a, b, c) \<in> {(x, y, z), (x, z, y), (y, x, z), (y, z, x), (z, x, y), (z, y, x)}"
    by (rule sort3_obtain)
  from asm have "(a = b \<and> point h = c \<and> c \<noteq> a) \<or> (b = c \<and> point h = a \<and> a \<noteq> b)"
    unfolding classify_sorted [OF ab bc s] by (auto split: if_splits)
  with perm show "(x = y \<and> z = point h \<and> point h \<noteq> x) \<or>
      (y = z \<and> x = point h \<and> point h \<noteq> y) \<or>
      (x = z \<and> y = point h \<and> point h \<noteq> x)"
    by auto
next
  assume "p \<noteq> v"
  then show "\<exists>d l. rollCeeLo_classify p p v = Some (HandPoint d l v)"
    by (cases "p \<le> v") (simp_all add: rollCeeLo_classify_def Let_def)
next
  assume "p \<noteq> v"
  then show "\<exists>d l. rollCeeLo_classify p v p = Some (HandPoint d l v)"
    by (cases "p \<le> v") (simp_all add: rollCeeLo_classify_def Let_def)
next
  assume "p \<noteq> v"
  then show "\<exists>d l. rollCeeLo_classify v p p = Some (HandPoint d l v)"
    by (cases "p \<le> v") (simp_all add: rollCeeLo_classify_def Let_def)
qed

theorem C7_point_witness:
  "rollCeeLo_classify 3 1 3 = Some (HandPoint [1, 3, 3] ''Point 1'' 1)
   \<and> type (HandPoint [1, 3, 3] ''Point 1'' 1) = ''point''
   \<and> (1 :: int) = point (HandPoint [1, 3, 3] ''Point 1'' 1)
   \<and> (2 :: int) \<noteq> 5
   \<and> rollCeeLo_classify 2 2 5 = Some (HandPoint [2, 2, 5] ''Point 5'' 5)"
  using C7_point [where x = 3 and y = 1 and z = 3
      and h = "HandPoint [1, 3, 3] ''Point 1'' 1" and p = 2 and v = 5]
  by (simp add: rollCeeLo_classify_def toString_def showNat.simps)

section \<open>Scores of the fourteen outcomes\<close>

text \<open>
  C6. The scores order the fourteen outcomes strictly: 4-5-6 above triple 6 down to
  triple 1, above point 6 down to point 1, above 1-2-3; so no two of them share a score.
  Triple 3 scores 303 and point 5 scores 105. Dice and label play no part in the score.
\<close>

theorem C6_rankScore_strict_order:
  "(let slots =
      [Hand456 d l,
       HandTriple d l 6, HandTriple d l 5, HandTriple d l 4,
       HandTriple d l 3, HandTriple d l 2, HandTriple d l 1,
       HandPoint d l 6, HandPoint d l 5, HandPoint d l 4,
       HandPoint d l 3, HandPoint d l 2, HandPoint d l 1,
       Hand123 d l]
    in map (\<lambda>h. rankScore (Hand h)) slots
         = [400, 306, 305, 304, 303, 302, 301, 106, 105, 104, 103, 102, 101, 0]
       \<and> sorted_wrt (\<lambda>h k. rankScore (Hand h) > rankScore (Hand k)) slots
       \<and> distinct (map (\<lambda>h. rankScore (Hand h)) slots))
   \<and> rankScore (Hand (HandTriple d' l' 3)) = 303
   \<and> rankScore (Hand (HandPoint d' l' 5)) = 105
   \<and> rankScore (Hand (Hand456 d' l')) = 400
   \<and> rankScore (Hand (HandTriple d' l' v)) = 300 + v
   \<and> rankScore (Hand (HandPoint d' l' v)) = 100 + v
   \<and> rankScore (Hand (Hand123 d' l')) = 0"
  by (simp add: Let_def rankScore_def)

section \<open>The allocation loop\<close>

text \<open>
  C2. When the loop returns a hand, the key of that hand is not in the set of used keys
  (whether or not a key is still free), and it was drawn in one of the first 20000
  tries. For the handler: the hand of a successful roll has a key that no recorded
  result had when the roll began.
\<close>

theorem C2_returned_key_not_used:
  "(roll_loop used tries s = Some (Inr h, t, s') \<longrightarrow> outcomeKey (Hand h) \<notin> used \<and> t \<le> 20000)
   \<and> (roll lc now st nm s0 = Some (Inr (RollOk h' u w), st', s0') \<longrightarrow>
        outcomeKey (Hand h') \<notin> outcomeKey ` ran (own (results st)))"
proof (rule conjI; rule impI)
  assume "roll_loop used tries s = Some (Inr h, t, s')"
  from roll_loop_Inr [OF this] show "outcomeKey (Hand h) \<notin> used \<and> t \<le> 20000" by simp
next
  assume "roll lc now st nm s0 = Some (Inr (RollOk h' u w), st', s0')"
  from roll_Inr [OF this] obtain t where
    "roll_loop (outcomeKey ` ran (own (results st))) 0 s0 = Some (Inr h', t, s0')"
    by auto
  from roll_loop_Inr [OF this]
  show "outcomeKey (Hand h') \<notin> outcomeKey ` ran (own (results st))" by simp
qed

theorem C2_returned_key_not_used_witness:
  "roll_loop {Some ''456''} 0 (sconst 0) = Some (Inr (HandTriple [1, 1, 1] ''Triple 1'' 1), 1, sconst 0)
   \<and> outcomeKey (Hand (HandTriple [1, 1, 1] ''Triple 1'' 1)) \<notin> {Some ''456''}
   \<and> roll compareCodeUnits ''t1''
        \<lparr>friends = [''A'', ''B''],
         results = \<lparr>own = [''B'' \<mapsto> Hand (Hand456 [4, 5, 6] ''4-5-6 (auto win)'')], proto = None\<rparr>,
         updatedAt = ''t0''\<rparr>
        ''A'' (sconst 0)
     = Some (Inr (RollOk (HandTriple [1, 1, 1] ''Triple 1'' 1) ''t1''
                   (Ready [\<lparr>name = ''B'', hand = Hand (Hand456 [4, 5, 6] ''4-5-6 (auto win)''),
                            score = 400\<rparr>] 400)),
             \<lparr>friends = [''A'', ''B''],
              results = \<lparr>own = [''B'' \<mapsto> Hand (Hand456 [4, 5, 6] ''4-5-6 (auto win)''),
                                ''A'' \<mapsto> Hand (HandTriple [1, 1, 1] ''Triple 1'' 1)],
                         proto = None\<rparr>,
              updatedAt = ''t1''\<rparr>, sconst 0)"
proof -
  let ?h = "HandTriple [1, 1, 1] ''Triple 1'' 1"
  let ?w = "Ready [\<lparr>name = ''B'', hand = Hand (Hand456 [4, 5, 6] ''4-5-6 (auto win)''),
                            score = 400\<rparr>] 400"
  let ?st = "\<lparr>friends = [''A'', ''B''],
         results = \<lparr>own = [''B'' \<mapsto> Hand (Hand456 [4, 5, 6] ''4-5-6 (auto win)'')], proto = None\<rparr>,
         updatedAt = ''t0''\<rparr>"
  let ?st' = "\<lparr>friends = [''A'', ''B''],
              results = \<lparr>own = [''B'' \<mapsto> Hand (Hand456 [4, 5, 6] ''4-5-6 (auto win)''),
                                ''A'' \<mapsto> Hand ?h],
                         proto = None\<rparr>,
              updatedAt = ''t1''\<rparr>"
  have r: "roll_loop {Some ''456''} 0 (sconst 0) = Some (Inr ?h, 1, sconst 0)"
    by (subst roll_loop.simps)
      (simp add: rollCeeLo_sconst0 outcomeKey_def toString_def showNat.simps)
  have k: "roll compareCodeUnits ''t1'' ?st ''A'' (sconst 0) = Some (Inr (RollOk ?h ''t1'' ?w), ?st', sconst 0)"
    by (simp add: roll_def MAX_UNIQUE_def r computeLeaders_def sort_cmp_def byScoreThenName_def
        get_def assign_def orNull_def rankScore_def outcomeKey_def memberNames_def)
  from C2_returned_key_not_used [where used = "{Some ''456''}" and tries = 0 and s = "sconst 0"
      and h = ?h and t = 1 and s' = "sconst 0"
      and lc = compareCodeUnits and now = "''t1''" and st = ?st and nm = "''A''"
      and ?s0.0 = "sconst 0" and h' = ?h and u = "''t1''" and w = ?w
      and st' = ?st' and s0' = "sconst 0"] r k
  show ?thesis by simp
qed

text \<open>
  C3 (as amended). On a stream of draws on which every call of \<open>rollCeeLo\<close> that the loop
  makes returns, the loop completes after at most 20001 calls: with a hand whose key is
  not used, drawn in one of the first 20000 tries, or with the error of exhausted
  attempts at try 20001. On any stream, the loop completes exactly when every call it
  makes returns.
\<close>

theorem C3_loop_completes:
  assumes "calls_return used s"
  shows "(\<exists>r t s'. roll_loop used 0 s = Some (r, t, s') \<and>
           ((\<exists>h. r = Inr h \<and> outcomeKey (Hand h) \<notin> used \<and> t \<le> 20000) \<or>
            (r = Inl AllocationExhausted \<and> t = 20001)))
         \<and> (roll_loop used' 0 s' \<noteq> None) = calls_return used' s'"
proof (rule conjI)
  show "(roll_loop used' 0 s' \<noteq> None) = calls_return used' s'"
    unfolding calls_return_def
    using roll_loop_calls [of 0 used' s'] roll_loop_returns [of 0 s' used'] by auto
next
  from assms [unfolded calls_return_def] have "\<forall>i\<le>20000 - 0.
      (\<forall>j<i. \<exists>h s'. nth_call j s = Some (h, s') \<and> outcomeKey (Hand h) \<in> used)
        \<longrightarrow> nth_call i s \<noteq> None"
    by simp
  from roll_loop_returns [OF _ this]
  obtain r t s' where eq: "roll_loop used 0 s = Some (r, t, s')"
    by (cases "roll_loop used 0 s") auto
  show "\<exists>r t s'. roll_loop used 0 s = Some (r, t, s') \<and>
           ((\<exists>h. r = Inr h \<and> outcomeKey (Hand h) \<notin> used \<and> t \<le> 20000) \<or>
            (r = Inl AllocationExhausted \<and> t = 20001))"
  proof (cases r)
    case (Inl e)
    with eq roll_loop_Inl [of used 0 s e t s'] show ?thesis by simp
  next
    case (Inr h)
    with eq roll_loop_Inr [of used 0 s h t s'] show ?thesis by simp
  qed
qed

theorem C3_loop_completes_witness:
  "calls_return {Some ''triple:1''} (0 ## 0 ## 0 ## 3 ## 4 ## 5 ## sconst 0)
   \<and> roll_loop {Some ''triple:1''} 0 (0 ## 0 ## 0 ## 3 ## 4 ## 5 ## sconst 0)
       = Some (Inr (Hand456 [4, 5, 6] ''4-5-6 (auto win)''), 2, sconst 0)
   \<and> (\<exists>r t s'. roll_loop {Some ''triple:1''} 0 (0 ## 0 ## 0 ## 3 ## 4 ## 5 ## sconst 0) = Some (r, t, s') \<and>
           ((\<exists>h. r = Inr h \<and> outcomeKey (Hand h) \<notin> {Some ''triple:1''} \<and> t \<le> 20000) \<or>
            (r = Inl AllocationExhausted \<and> t = 20001)))"
proof -
  let ?s = "0 ## 0 ## 0 ## 3 ## 4 ## 5 ## sconst 0"
  let ?used = "{Some ''triple:1''}"
  have c0: "nth_call 0 ?s = Some (HandTriple [1, 1, 1] ''Triple 1'' 1, 3 ## 4 ## 5 ## sconst 0)"
    by (simp add: rollCeeLo_111_then)
  have c1: "nth_call (Suc 0) ?s = Some (Hand456 [4, 5, 6] ''4-5-6 (auto win)'', sconst 0)"
    by (simp add: rollCeeLo_111_then rollCeeLo_456_then)
  have k1: "outcomeKey (Hand (Hand456 [4, 5, 6] ''4-5-6 (auto win)'')) \<notin> ?used"
    by (simp add: outcomeKey_def)
  have k0: "outcomeKey (Hand (HandTriple [1, 1, 1] ''Triple 1'' 1)) \<in> ?used"
    by (simp add: outcomeKey_def toString_def showNat.simps)
  have hyp: "\<forall>i\<le>20000.
      (\<forall>j<i. \<exists>h s'. nth_call j ?s = Some (h, s') \<and> outcomeKey (Hand h) \<in> ?used)
        \<longrightarrow> nth_call i ?s \<noteq> None"
  proof (intro allI impI)
    fix i :: nat
    assume before: "\<forall>j<i. \<exists>h s'. nth_call j ?s = Some (h, s') \<and> outcomeKey (Hand h) \<in> ?used"
    show "nth_call i ?s \<noteq> None"
    proof (cases "i < 2")
      case True
      then have "i = 0 \<or> i = Suc 0" by arith
      with c0 c1 show ?thesis by auto
    next
      case False
      then have "Suc 0 < i" by simp
      with before have "\<exists>h s'. nth_call (Suc 0) ?s = Some (h, s') \<and> outcomeKey (Hand h) \<in> ?used"
        by blast
      with c1 k1 show ?thesis by simp
    qed
  qed
  have r: "roll_loop ?used 0 ?s = Some (Inr (Hand456 [4, 5, 6] ''4-5-6 (auto win)''), 2, sconst 0)"
  proof -
    have "roll_loop ?used (Suc 0) (3 ## 4 ## 5 ## sconst 0)
        = Some (Inr (Hand456 [4, 5, 6] ''4-5-6 (auto win)''), 2, sconst 0)"
      using k1 by (subst roll_loop.simps) (simp add: rollCeeLo_456_then)
    with k0 show ?thesis
      by (subst roll_loop.simps) (simp add: rollCeeLo_111_then)
  qed
  from hyp have cr: "calls_return ?used ?s"
    unfolding calls_return_def .
  from C3_loop_completes [OF cr, where used' = ?used and s' = ?s] cr r show ?thesis by blast
qed

text \<open>
  C3 as stated fails: on the stream of draws that shows 1, 2, 4 for ever, \<open>rollCeeLo\<close>
  never returns, so neither does the loop; the cap on \<open>tries\<close> is never consulted.
\<close>

theorem C3_loop_runs_forever: "roll_loop {} 0 (cycle [0, 1, 3]) = None"
  by (rule roll_loop_diverges) (rule rollCeeLo_cycle124)

section \<open>The leaderboard\<close>

text \<open>
  C4 (as amended). For a roster that is not empty and holds no name that the results
  object finds on its prototype chain (\<open>constructor\<close>, \<open>toString\<close>, \<open>__proto__\<close> and the
  like), the leaderboard is not ready exactly when some name of the roster has no
  recorded outcome; when every name has one it is ready, with leaders and a top score.
\<close>

theorem C4_ready_iff:
  assumes "friends st \<noteq> []"
    and "\<forall>n\<in>set (friends st). n \<notin> set (inheritedNames res)"
  shows "(computeLeaders lc st res = Inr NotReady) = (\<exists>n\<in>set (friends st). \<not> recorded res n)
    \<and> ((\<forall>n\<in>set (friends st). recorded res n) \<longrightarrow>
          (\<exists>ls tp. computeLeaders lc st res = Inr (Ready ls tp)))"
proof -
  have t: "truthy (get res n) = recorded res n" if "n \<in> set (friends st)" for n
    using assms(2) that by (simp add: truthy_get_not_inherited)
  show ?thesis
  proof (cases "\<exists>n\<in>set (friends st). \<not> recorded res n")
    case True
    with t have "\<exists>n\<in>set (friends st). \<not> truthy (get res n)" by blast
    from computeLeaders_missing [OF this, of lc] True show ?thesis by auto
  next
    case False
    with t have all: "\<forall>n\<in>set (friends st). truthy (get res n)" by simp
    from computeLeaders_Ready [OF all assms(1), of lc] False show ?thesis by auto
  qed
qed

theorem C4_ready_iff_witness:
  "friends \<lparr>friends = [''A'', ''B''], results = \<lparr>own = Map.empty, proto = None\<rparr>, updatedAt = ''''\<rparr> \<noteq> []
   \<and> ''A'' \<notin> set (inheritedNames \<lparr>own = [''A'' \<mapsto> Hand (HandTriple [3, 3, 3] ''Triple 3'' 3)], proto = None\<rparr>)
   \<and> ''B'' \<notin> set (inheritedNames \<lparr>own = [''A'' \<mapsto> Hand (HandTriple [3, 3, 3] ''Triple 3'' 3)], proto = None\<rparr>)
   \<and> \<not> recorded \<lparr>own = [''A'' \<mapsto> Hand (HandTriple [3, 3, 3] ''Triple 3'' 3)], proto = None\<rparr> ''B''
   \<and> computeLeaders compareCodeUnits
        \<lparr>friends = [''A'', ''B''], results = \<lparr>own = Map.empty, proto = None\<rparr>, updatedAt = ''''\<rparr>
        \<lparr>own = [''A'' \<mapsto> Hand (HandTriple [3, 3, 3] ''Triple 3'' 3)], proto = None\<rparr> = Inr NotReady
   \<and> computeLeaders compareCodeUnits
        \<lparr>friends = [''A'', ''B''], results = \<lparr>own = Map.empty, proto = None\<rparr>, updatedAt = ''''\<rparr>
        \<lparr>own = [''A'' \<mapsto> Hand (HandTriple [3, 3, 3] ''Triple 3'' 3),
                 ''B'' \<mapsto> Hand (HandPoint [2, 2, 5] ''Point 5'' 5)], proto = None\<rparr>
      = Inr (Ready [\<lparr>name = ''A'', hand = Hand (HandTriple [3, 3, 3] ''Triple 3'' 3), score = 303\<rparr>] 303)"
proof -
  let ?st = "\<lparr>friends = [''A'', ''B''], results = \<lparr>own = Map.empty, proto = None\<rparr>, updatedAt = ''''\<rparr>"
  let ?res = "\<lparr>own = [''A'' \<mapsto> Hand (HandTriple [3, 3, 3] ''Triple 3'' 3)], proto = None\<rparr>"
  have ne: "friends ?st \<noteq> []" by simp
  have a: "''A'' \<notin> set (inheritedNames ?res)" and b: "''B'' \<notin> set (inheritedNames ?res)"
    by (simp_all add: inheritedNames_def memberNames_def)
  then have inh: "\<forall>n\<in>set (friends ?st). n \<notin> set (inheritedNames ?res)" by simp
  have nb: "\<not> recorded ?res ''B''" by (simp add: recorded_def)
  then have "\<exists>n\<in>set (friends ?st). \<not> recorded ?res n" by simp
  with C4_ready_iff [OF ne inh, where lc = compareCodeUnits]
  have nr: "computeLeaders compareCodeUnits ?st ?res = Inr NotReady" by blast
  have rd: "computeLeaders compareCodeUnits ?st
        \<lparr>own = [''A'' \<mapsto> Hand (HandTriple [3, 3, 3] ''Triple 3'' 3),
                 ''B'' \<mapsto> Hand (HandPoint [2, 2, 5] ''Point 5'' 5)], proto = None\<rparr>
      = Inr (Ready [\<lparr>name = ''A'', hand = Hand (HandTriple [3, 3, 3] ''Triple 3'' 3), score = 303\<rparr>] 303)"
    by (simp add: computeLeaders_def sort_cmp_def byScoreThenName_def get_def orNull_def rankScore_def)
  from ne a b nb nr rd show ?thesis by simp
qed

text \<open>
  C4 as stated fails for the empty roster: nobody is missing a hand, and the leaderboard
  is neither ready nor not ready; reading the first sorted entry throws. It fails as
  well for a roster that holds an inherited name: with nothing recorded, the
  participant \<open>constructor\<close> counts as having rolled and leads with the score -1.
\<close>

theorem C4_empty_roster_throws:
  "computeLeaders compareCodeUnits
     \<lparr>friends = [], results = \<lparr>own = Map.empty, proto = None\<rparr>, updatedAt = ''''\<rparr>
     \<lparr>own = Map.empty, proto = None\<rparr>
     = Inl TypeError
   \<and> computeLeaders compareCodeUnits
     \<lparr>friends = [''constructor''], results = \<lparr>own = Map.empty, proto = None\<rparr>, updatedAt = ''''\<rparr>
     \<lparr>own = Map.empty, proto = None\<rparr>
     = Inr (Ready [\<lparr>name = ''constructor'', hand = Member ''constructor'', score = - 1\<rparr>] (- 1))"
  by (simp add: computeLeaders_def Let_def sort_cmp_def get_def orNull_def rankScore_def
      memberNames_def)

text \<open>
  C5. For a consistent collation: when the leaderboard is ready, the top score is the
  greatest score of the roster and is reached; the leaders are exactly the roster's
  entries with that score, each as often as its name is in the roster; and they are in
  order of descending score, then ascending name by the collation. The result is a
  function of the roster and the results. With A collated before B, two triples of 3
  held by A and B give the leaders A, B in this order and the top score 303, whichever
  way round the roster lists them.
\<close>

theorem C5_leaders:
  assumes "consistent localeCompare"
  shows "(computeLeaders localeCompare st res = Inr (Ready ls tp) \<longrightarrow>
           (\<forall>n\<in>set (friends st). rankScore (get res n) \<le> tp)
         \<and> (\<exists>n\<in>set (friends st). rankScore (get res n) = tp)
         \<and> mset ls = mset (filter (\<lambda>e. score e = tp)
              (map (\<lambda>n. \<lparr>name = n, hand = get res n, score = rankScore (get res n)\<rparr>) (friends st)))
         \<and> sorted_wrt (\<lambda>A B. score B < score A \<or>
              (score A = score B \<and> localeCompare (name A) (name B) \<le> 0)) ls)
       \<and> (localeCompare ''A'' ''B'' < 0 \<longrightarrow>
           computeLeaders localeCompare \<lparr>friends = [''A'', ''B''], results = r, updatedAt = u\<rparr>
             \<lparr>own = [''A'' \<mapsto> Hand (HandTriple [3, 3, 3] ''Triple 3'' 3),
                      ''B'' \<mapsto> Hand (HandTriple [3, 3, 3] ''Triple 3'' 3)], proto = None\<rparr>
           = Inr (Ready [\<lparr>name = ''A'', hand = Hand (HandTriple [3, 3, 3] ''Triple 3'' 3), score = 303\<rparr>,
                         \<lparr>name = ''B'', hand = Hand (HandTriple [3, 3, 3] ''Triple 3'' 3), score = 303\<rparr>] 303)
         \<and> computeLeaders localeCompare \<lparr>friends = [''B'', ''A''], results = r, updatedAt = u\<rparr>
             \<lparr>own = [''A'' \<mapsto> Hand (HandTriple [3, 3, 3] ''Triple 3'' 3),
                      ''B'' \<mapsto> Hand (HandTriple [3, 3, 3] ''Triple 3'' 3)], proto = None\<rparr>
           = Inr (Ready [\<lparr>name = ''A'', hand = Hand (HandTriple [3, 3, 3] ''Triple 3'' 3), score = 303\<rparr>,
                         \<lparr>name = ''B'', hand = Hand (HandTriple [3, 3, 3] ''Triple 3'' 3), score = 303\<rparr>] 303))"
proof (intro conjI impI)
  assume ab: "localeCompare ''A'' ''B'' < 0"
  with assms have ba: "0 < localeCompare ''B'' ''A''"
    unfolding consistent_def by blast
  from ab show "computeLeaders localeCompare \<lparr>friends = [''A'', ''B''], results = r, updatedAt = u\<rparr>
             \<lparr>own = [''A'' \<mapsto> Hand (HandTriple [3, 3, 3] ''Triple 3'' 3),
                      ''B'' \<mapsto> Hand (HandTriple [3, 3, 3] ''Triple 3'' 3)], proto = None\<rparr>
           = Inr (Ready [\<lparr>name = ''A'', hand = Hand (HandTriple [3, 3, 3] ''Triple 3'' 3), score = 303\<rparr>,
                         \<lparr>name = ''B'', hand = Hand (HandTriple [3, 3, 3] ''Triple 3'' 3), score = 303\<rparr>] 303)"
    by (simp add: computeLeaders_def sort_cmp_def byScoreThenName_def get_def orNull_def rankScore_def)
  from ba show "computeLeaders localeCompare \<lparr>friends = [''B'', ''A''], results = r, updatedAt = u\<rparr>
             \<lparr>own = [''A'' \<mapsto> Hand (HandTriple [3, 3, 3] ''Triple 3'' 3),
                      ''B'' \<mapsto> Hand (HandTriple [3, 3, 3] ''Triple 3'' 3)], proto = None\<rparr>
           = Inr (Ready [\<lparr>name = ''A'', hand = Hand (HandTriple [3, 3, 3] ''Triple 3'' 3), score = 303\<rparr>,
                         \<lparr>name = ''B'', hand = Hand (HandTriple [3, 3, 3] ''Triple 3'' 3), score = 303\<rparr>] 303)"
    by (simp add: computeLeaders_def sort_cmp_def byScoreThenName_def get_def orNull_def rankScore_def)
next
  assume ready: "computeLeaders localeCompare st res = Inr (Ready ls tp)"
  let ?xs = "map (\<lambda>n. \<lparr>name = n, hand = get res n, score = rankScore (get res n)\<rparr>) (friends st)"
  let ?cmp = "byScoreThenName localeCompare"
  from computeLeaders_Ready_eq [OF ready] obtain w ws where
    ys: "sort_cmp ?cmp ?xs = w # ws"
    and tp: "tp = score w" and ls: "ls = filter (\<lambda>e. score e = tp) (w # ws)"
    by blast
  have sorted: "sorted_wrt (\<lambda>a b. ?cmp a b \<le> 0) (w # ws)"
    using sorted_sort_cmp [OF consistent_byScoreThenName [OF assms], of ?xs] unfolding ys .
  have set_eq: "set (w # ws) = set ?xs"
    using set_sort_cmp [of ?cmp ?xs] unfolding ys .
  have mset_eq: "mset (w # ws) = mset ?xs"
    using mset_sort_cmp [of ?cmp ?xs] unfolding ys .
  have le: "score e \<le> tp" if "e \<in> set (w # ws)" for e
  proof (cases "e = w")
    case True
    then show ?thesis by (simp add: tp)
  next
    case False
    with that have "e \<in> set ws" by simp
    with sorted have "?cmp w e \<le> 0" by simp
    then show ?thesis unfolding tp byScoreThenName_le by auto
  qed
  show "\<forall>n\<in>set (friends st). rankScore (get res n) \<le> tp"
  proof
    fix n assume "n \<in> set (friends st)"
    then have "\<lparr>name = n, hand = get res n, score = rankScore (get res n)\<rparr> \<in> set ?xs" by simp
    with set_eq have "\<lparr>name = n, hand = get res n, score = rankScore (get res n)\<rparr> \<in> set (w # ws)"
      by simp
    from le [OF this] show "rankScore (get res n) \<le> tp" by simp
  qed
  have "w \<in> set ?xs" using set_eq by auto
  then show "\<exists>n\<in>set (friends st). rankScore (get res n) = tp"
    unfolding tp by auto
  have "mset ls = filter_mset (\<lambda>e. score e = tp) (mset (w # ws))"
    unfolding ls by (simp only: mset_filter)
  also have "\<dots> = mset (filter (\<lambda>e. score e = tp) ?xs)"
    unfolding mset_eq by (simp only: mset_filter)
  finally show "mset ls = mset (filter (\<lambda>e. score e = tp) ?xs)" .
  have "sorted_wrt (\<lambda>a b. ?cmp a b \<le> 0) ls"
    unfolding ls using sorted by (rule sorted_wrt_filter)
  then show "sorted_wrt (\<lambda>A B. score B < score A \<or>
              (score A = score B \<and> localeCompare (name A) (name B) \<le> 0)) ls"
    unfolding byScoreThenName_le .
qed

theorem C5_leaders_witness:
  "consistent compareCodeUnits
   \<and> compareCodeUnits ''A'' ''B'' < 0
   \<and> computeLeaders compareCodeUnits
        \<lparr>friends = [''B'', ''A''], results = \<lparr>own = Map.empty, proto = None\<rparr>, updatedAt = ''''\<rparr>
        \<lparr>own = [''A'' \<mapsto> Hand (HandTriple [3, 3, 3] ''Triple 3'' 3),
                 ''B'' \<mapsto> Hand (HandTriple [3, 3, 3] ''Triple 3'' 3)], proto = None\<rparr>
      = Inr (Ready [\<lparr>name = ''A'', hand = Hand (HandTriple [3, 3, 3] ''Triple 3'' 3), score = 303\<rparr>,
                    \<lparr>name = ''B'', hand = Hand (HandTriple [3, 3, 3] ''Triple 3'' 3), score = 303\<rparr>] 303)
   \<and> rankScore (get \<lparr>own = [''A'' \<mapsto> Hand (HandTriple [3, 3, 3] ''Triple 3'' 3),
                 ''B'' \<mapsto> Hand (HandTriple [3, 3, 3] ''Triple 3'' 3)], proto = None\<rparr> ''B'') = 303"
proof -
  have ab: "compareCodeUnits ''A'' ''B'' < 0" by simp
  have sc: "rankScore (get \<lparr>own = [''A'' \<mapsto> Hand (HandTriple [3, 3, 3] ''Triple 3'' 3),
                 ''B'' \<mapsto> Hand (HandTriple [3, 3, 3] ''Triple 3'' 3)], proto = None\<rparr> ''B'') = 303"
    by (simp add: get_def rankScore_def)
  from C5_leaders [OF consistent_compareCodeUnits,
      where st = "\<lparr>friends = [''B'', ''A''], results = \<lparr>own = Map.empty, proto = None\<rparr>, updatedAt = ''''\<rparr>"
        and res = "\<lparr>own = [''A'' \<mapsto> Hand (HandTriple [3, 3, 3] ''Triple 3'' 3),
                 ''B'' \<mapsto> Hand (HandTriple [3, 3, 3] ''Triple 3'' 3)], proto = None\<rparr>"
        and ls = "[\<lparr>name = ''A'', hand = Hand (HandTriple [3, 3, 3] ''Triple 3'' 3), score = 303\<rparr>,
           \<lparr>name = ''B'', hand = Hand (HandTriple [3, 3, 3] ''Triple 3'' 3), score = 303\<rparr>]"
        and tp = 303 and r = "\<lparr>own = Map.empty, proto = None\<rparr>" and u = "''''"]
    ab sc consistent_compareCodeUnits
  show ?thesis by simp
qed

text \<open>
  C10. The leaderboard reads the results only at the names of the roster: results that
  agree on the roster give the same leaderboard, so removing every entry under another
  name changes nothing; the leaders' names are names of the roster, and the top score
  is the score of what the results hold under a roster name.
\<close>

theorem C10_only_roster_entries_count:
  "((\<forall>n\<in>set (friends st). get r1 n = get r2 n) \<longrightarrow> computeLeaders lc st r1 = computeLeaders lc st r2)
   \<and> computeLeaders lc st res = computeLeaders lc st (res\<lparr>own := own res |` set (friends st)\<rparr>)
   \<and> (computeLeaders lc st res = Inr (Ready ls tp) \<longrightarrow>
        name ` set ls \<subseteq> set (friends st) \<and> (\<exists>n\<in>set (friends st). tp = rankScore (get res n)))"
proof (intro conjI impI)
  have cong: "computeLeaders lc st a = computeLeaders lc st b"
    if "\<forall>n\<in>set (friends st). get a n = get b n" for a b :: dict
  proof -
    from that have eq: "map (\<lambda>n. \<lparr>name = n, hand = orNull (get a n)\<rparr>) (friends st)
        = map (\<lambda>n. \<lparr>name = n, hand = orNull (get b n)\<rparr>) (friends st)"
      by simp
    show ?thesis unfolding computeLeaders_def eq by (rule refl)
  qed
  {
    assume "\<forall>n\<in>set (friends st). get r1 n = get r2 n"
    then show "computeLeaders lc st r1 = computeLeaders lc st r2" by (rule cong)
  }
  show "computeLeaders lc st res = computeLeaders lc st (res\<lparr>own := own res |` set (friends st)\<rparr>)"
    by (rule cong) (simp add: get_restrict)
  {
    assume "computeLeaders lc st res = Inr (Ready ls tp)"
    from computeLeaders_Ready_eq [OF this] obtain w ws where
      ys: "sort_cmp (byScoreThenName lc)
               (map (\<lambda>n. \<lparr>name = n, hand = get res n, score = rankScore (get res n)\<rparr>) (friends st))
             = w # ws"
      and tp: "tp = score w" and ls: "ls = filter (\<lambda>e. score e = tp) (w # ws)"
      by blast
    have sub: "set (w # ws)
        = set (map (\<lambda>n. \<lparr>name = n, hand = get res n, score = rankScore (get res n)\<rparr>) (friends st))"
      using ys set_sort_cmp by metis
    have "set ls \<subseteq> set (w # ws)"
      unfolding ls by (rule filter_is_subset)
    with sub show "name ` set ls \<subseteq> set (friends st)" by auto
    have "w \<in> set (w # ws)" by simp
    with sub tp show "\<exists>n\<in>set (friends st). tp = rankScore (get res n)" by auto
  }
qed

theorem C10_only_roster_entries_count_witness:
  "(''A'' \<in> set (friends \<lparr>friends = [''A''], results = \<lparr>own = Map.empty, proto = None\<rparr>, updatedAt = ''''\<rparr>)
     \<and> get \<lparr>own = [''A'' \<mapsto> Hand (Hand123 [1, 2, 3] ''1-2-3 (auto loss)''),
                    ''Z'' \<mapsto> Hand (Hand456 [4, 5, 6] ''4-5-6 (auto win)'')], proto = None\<rparr> ''A''
       = get \<lparr>own = [''A'' \<mapsto> Hand (Hand123 [1, 2, 3] ''1-2-3 (auto loss)'')], proto = None\<rparr> ''A'')
   \<and> computeLeaders compareCodeUnits
        \<lparr>friends = [''A''], results = \<lparr>own = Map.empty, proto = None\<rparr>, updatedAt = ''''\<rparr>
        \<lparr>own = [''A'' \<mapsto> Hand (Hand123 [1, 2, 3] ''1-2-3 (auto loss)''),
                 ''Z'' \<mapsto> Hand (Hand456 [4, 5, 6] ''4-5-6 (auto win)'')], proto = None\<rparr>
      = Inr (Ready [\<lparr>name = ''A'', hand = Hand (Hand123 [1, 2, 3] ''1-2-3 (auto loss)''), score = 0\<rparr>] 0)
   \<and> computeLeaders compareCodeUnits
        \<lparr>friends = [''A''], results = \<lparr>own = Map.empty, proto = None\<rparr>, updatedAt = ''''\<rparr>
        \<lparr>own = [''A'' \<mapsto> Hand (Hand123 [1, 2, 3] ''1-2-3 (auto loss)'')], proto = None\<rparr>
      = Inr (Ready [\<lparr>name = ''A'', hand = Hand (Hand123 [1, 2, 3] ''1-2-3 (auto loss)''), score = 0\<rparr>] 0)"
  using C10_only_roster_entries_count
    [where st = "\<lparr>friends = [''A''], results = \<lparr>own = Map.empty, proto = None\<rparr>, updatedAt = ''''\<rparr>"
       and ?r1.0 = "\<lparr>own = [''A'' \<mapsto> Hand (Hand123 [1, 2, 3] ''1-2-3 (auto loss)''),
                 ''Z'' \<mapsto> Hand (Hand456 [4, 5, 6] ''4-5-6 (auto win)'')], proto = None\<rparr>"
       and ?r2.0 = "\<lparr>own = [''A'' \<mapsto> Hand (Hand123 [1, 2, 3] ''1-2-3 (auto loss)'')], proto = None\<rparr>"
       and lc = compareCodeUnits
       and res = "\<lparr>own = [''A'' \<mapsto> Hand (Hand123 [1, 2, 3] ''1-2-3 (auto loss)''),
                 ''Z'' \<mapsto> Hand (Hand456 [4, 5, 6] ''4-5-6 (auto win)'')], proto = None\<rparr>"
       and ls = "[\<lparr>name = ''A'', hand = Hand (Hand123 [1, 2, 3] ''1-2-3 (auto loss)''), score = 0\<rparr>]"
       and tp = 0]
  by (simp add: computeLeaders_def sort_cmp_def get_def orNull_def rankScore_def)

section \<open>Rolls and roster edits\<close>

text \<open>
  C8. A roll that ends in an error, whichever it is, leaves the whole state as it was,
  the results among it. A roll that succeeds stores the returned hand under the
  participant's name, who is in the roster and had no recorded outcome, and changes no
  other entry and not the roster.
\<close>

theorem C8_error_leaves_results:
  "(roll lc now st nm s = Some (Inl e, st', s') \<longrightarrow> st' = st \<and> results st' = results st)
   \<and> (roll lc now st nm s = Some (Inr r, st', s') \<longrightarrow>
        (\<exists>h w. r = RollOk h now w
           \<and> own (results st') = (own (results st))(nm \<mapsto> Hand h)
           \<and> proto (results st') = proto (results st)
           \<and> friends st' = friends st
           \<and> \<not> truthy (get (results st) nm) \<and> \<not> recorded (results st) nm
           \<and> nm \<in> set (friends st)))"
proof (rule conjI; rule impI)
  assume "roll lc now st nm s = Some (Inl e, st', s')"
  from roll_Inl [OF this] show "st' = st \<and> results st' = results st" by simp
next
  assume "roll lc now st nm s = Some (Inr r, st', s')"
  from roll_Inr [OF this] obtain h w where
    r: "r = RollOk h now w"
    and st': "st' = st\<lparr>results := assign (results st) nm (Hand h), updatedAt := now\<rparr>"
    and nm: "nm \<in> set (friends st)" and falsy: "\<not> truthy (get (results st) nm)"
    by blast
  from falsy have nrec: "\<not> recorded (results st) nm"
    by (auto simp: recorded_def get_def split: option.splits)
  from st' assign_own [OF falsy, of "Hand h"]
  have "own (results st') = (own (results st))(nm \<mapsto> Hand h)
      \<and> proto (results st') = proto (results st) \<and> friends st' = friends st"
    by simp
  with r nm falsy nrec
  show "\<exists>h w. r = RollOk h now w
           \<and> own (results st') = (own (results st))(nm \<mapsto> Hand h)
           \<and> proto (results st') = proto (results st)
           \<and> friends st' = friends st
           \<and> \<not> truthy (get (results st) nm) \<and> \<not> recorded (results st) nm
           \<and> nm \<in> set (friends st)"
    by blast
qed

theorem C8_error_leaves_results_witness:
  "roll compareCodeUnits ''t1''
      \<lparr>friends = [''A''], results = \<lparr>own = Map.empty, proto = None\<rparr>, updatedAt = ''t0''\<rparr>
      ''Zed'' (sconst 0)
     = Some (Inl NotInRoster,
             \<lparr>friends = [''A''], results = \<lparr>own = Map.empty, proto = None\<rparr>, updatedAt = ''t0''\<rparr>,
             sconst 0)
   \<and> roll compareCodeUnits ''t1''
      \<lparr>friends = [''A''], results = \<lparr>own = Map.empty, proto = None\<rparr>, updatedAt = ''t0''\<rparr>
      ''A'' (sconst 0)
     = Some (Inr (RollOk (HandTriple [1, 1, 1] ''Triple 1'' 1) ''t1''
                   (Ready [\<lparr>name = ''A'', hand = Hand (HandTriple [1, 1, 1] ''Triple 1'' 1),
                            score = 301\<rparr>] 301)),
             \<lparr>friends = [''A''],
              results = \<lparr>own = [''A'' \<mapsto> Hand (HandTriple [1, 1, 1] ''Triple 1'' 1)], proto = None\<rparr>,
              updatedAt = ''t1''\<rparr>,
             sconst 0)
   \<and> own (results \<lparr>friends = [''A''],
              results = \<lparr>own = [''A'' \<mapsto> Hand (HandTriple [1, 1, 1] ''Triple 1'' 1)], proto = None\<rparr>,
              updatedAt = ''t1''\<rparr>)
     = (own (results \<lparr>friends = [''A''], results = \<lparr>own = Map.empty, proto = None\<rparr>,
               updatedAt = ''t0''\<rparr>))
         (''A'' \<mapsto> Hand (HandTriple [1, 1, 1] ''Triple 1'' 1))"
proof -
  let ?st = "\<lparr>friends = [''A''], results = \<lparr>own = Map.empty, proto = None\<rparr>, updatedAt = ''t0''\<rparr>"
  let ?h = "HandTriple [1, 1, 1] ''Triple 1'' 1"
  let ?w = "Ready [\<lparr>name = ''A'', hand = Hand ?h, score = 301\<rparr>] 301"
  let ?st' = "\<lparr>friends = [''A''], results = \<lparr>own = [''A'' \<mapsto> Hand ?h], proto = None\<rparr>,
              updatedAt = ''t1''\<rparr>"
  have e: "roll compareCodeUnits ''t1'' ?st ''Zed'' (sconst 0) = Some (Inl NotInRoster, ?st, sconst 0)"
    by (simp add: roll_def)
  have k: "roll compareCodeUnits ''t1'' ?st ''A'' (sconst 0)
     = Some (Inr (RollOk ?h ''t1'' ?w), ?st', sconst 0)"
    by (simp add: roll_def MAX_UNIQUE_def roll_loop_sconst0 computeLeaders_def sort_cmp_def
        get_def assign_def orNull_def rankScore_def memberNames_def)
  from C8_error_leaves_results [where lc = compareCodeUnits and now = "''t1''" and st = ?st
      and nm = "''Zed''" and s = "sconst 0" and e = NotInRoster and st' = ?st and s' = "sconst 0"]
    C8_error_leaves_results [where lc = compareCodeUnits and now = "''t1''" and st = ?st
      and nm = "''A''" and s = "sconst 0" and st' = ?st' and s' = "sconst 0"
      and r = "RollOk ?h ''t1'' ?w"]
    e k
  show ?thesis by simp
qed

text \<open>
  C9 fails on the code. The roster edit looks every new name up in the old results
  through the prototype chain, so for a name such as \<open>constructor\<close> or \<open>toString\<close> it
  finds an inherited function and stores it as a result, although the old results held
  nothing under that name. Here the old results are empty, and so without duplicate
  keys; after the edit they hold two entries, both with the key \<open>undefined\<close>.
\<close>

theorem C9_setNames_stores_inherited:
  "setNames id ''t1''
      \<lparr>friends = [''A''], results = \<lparr>own = Map.empty, proto = None\<rparr>, updatedAt = ''t0''\<rparr>
      [''constructor'', ''toString'']
     = (Inr (SetNamesOk [''constructor'', ''toString''] ''t1''),
        \<lparr>friends = [''constructor'', ''toString''],
         results = \<lparr>own = [''constructor'' \<mapsto> Member ''constructor'',
                           ''toString'' \<mapsto> Member ''toString''], proto = None\<rparr>,
         updatedAt = ''t1''\<rparr>)
   \<and> noDuplicateKeys \<lparr>own = Map.empty, proto = None\<rparr>
   \<and> \<not> noDuplicateKeys \<lparr>own = [''constructor'' \<mapsto> Member ''constructor'',
                                  ''toString'' \<mapsto> Member ''toString''], proto = None\<rparr>
   \<and> outcomeKey (Member ''constructor'') = None
   \<and> outcomeKey (Member ''toString'') = None"
  by (simp add: setNames_def Let_def copyResults_def get_def assign_def memberNames_def
      noDuplicateKeys_def outcomeKey_def)

end
